theory Spec2Isabelle
  imports Complex_Main "HOL-Library.Word"
begin

section \<open>Python values, exceptions and outcomes\<close>

text \<open>
  The module \<^verbatim>\<open>telemtrix_aio_serial.py\<close> defines one class, \<^verbatim>\<open>TelemetrixAioSerial\<close>,
  whose coroutines drive a pyserial port by polling.  Bytes are 8-bit words, Python
  integers are \<open>int\<close>, clock readings and sleep durations are exact rationals (seconds).
  A coroutine either returns a value, raises, or is still polling when the iteration
  budget (fuel) of its \<^verbatim>\<open>while True\<close> loop is used up (\<open>Pending\<close>).
\<close>

type_synonym byte = "8 word"
type_synonym ref = nat

datatype exn = SerialException | ValueError | TypeError | AttributeError

datatype pyval = PyNone | PyInt int | PyList "int list" | PySerial ref

datatype outcome = Returned pyval | Raised exn | Pending

text \<open>\<^verbatim>\<open>LF = 0x0a\<close>\<close>

definition LF :: int where
  "LF = 10"

text \<open>\<^verbatim>\<open>str(n)\<close> for an integer: decimal digits, with a minus sign when negative.\<close>

definition digit_char :: "nat \<Rightarrow> char" where
  "digit_char d = ''0123456789'' ! d"

fun digits :: "nat \<Rightarrow> string" where
  "digits n = (if n < 10 then [digit_char n] else digits (n div 10) @ [digit_char (n mod 10)])"

declare digits.simps [simp del]

definition py_str :: "int \<Rightarrow> string" where
  "py_str i = (if i < 0 then CHR ''-'' # digits (nat (- i)) else digits (nat i))"

text \<open>\<^verbatim>\<open>s.encode()\<close>: the characters produced by \<open>py_str\<close> are ASCII, one byte each.\<close>

definition encode :: "string \<Rightarrow> byte list" where
  "encode s = map of_char s"

text \<open>\<^verbatim>\<open>bytes(data)\<close> for a sequence of integers: every item must be in \<open>range(256)\<close>.\<close>

definition py_bytes :: "int list \<Rightarrow> exn + byte list" where
  "py_bytes data =
     (if list_all (\<lambda>x. 0 \<le> x \<and> x < 256) data then Inr (map word_of_int data)
      else Inl ValueError)"

text \<open>\<^verbatim>\<open>ord(data)\<close> for a bytes object: defined on length 1 only.\<close>

definition py_ord :: "byte list \<Rightarrow> exn + int" where
  "py_ord data = (case data of [b] \<Rightarrow> Inr (uint b) | _ \<Rightarrow> Inl TypeError)"

text \<open>\<^verbatim>\<open>line[-n:]\<close>\<close>

definition py_tail :: "nat \<Rightarrow> 'a list \<Rightarrow> 'a list" where
  "py_tail n xs = (if n = 0 then xs else drop (length xs - n) xs)"

section \<open>The serial port object\<close>

text \<open>
  Modelled from the spec: the device driver (pyserial's \<^verbatim>\<open>serial.Serial\<close>) is an external
  library, not part of this repository.  It is modelled as the scriptable fake driver of
  the spec's test scenarios: an input buffer \<open>rx\<close> that can be pre-loaded, chunks that
  arrive at given script positions (\<open>incoming\<close>), an output sink \<open>tx\<close> that may accept only
  \<open>tx_limit\<close> bytes per write, a countdown \<open>fault_in\<close> of device calls that still succeed
  before one raises \<^verbatim>\<open>SerialException\<close>, and a log \<open>calls\<close> of every call made on
  the object.  What a call on a closed port raises is a parameter of the driver,
  \<open>closed_error\<close>, since it differs between calls and platforms; \<^verbatim>\<open>close\<close> never raises.
  The arrival times of \<open>incoming\<close> are positions in the test's script (see \<open>now\<close> below),
  not readings of the wall clock.
\<close>

datatype dev_call =
    DevWrite "byte list"
  | DevInWaiting
  | DevRead int
  | DevReadUntil "byte list" "int option"
  | DevResetInputBuffer
  | DevClose

record serial_port =
  port :: string
  baudrate :: int
  is_open :: bool
  rx :: "byte list"
  incoming :: "(rat \<times> byte list) list"
  tx :: "byte list"
  tx_limit :: "nat option"
  fault_in :: "nat option"
  closed_error :: "dev_call \<Rightarrow> exn"
  calls :: "dev_call list"

text \<open>
  Modelled from the spec: what pyserial raises on a closed port on POSIX (the default
  port is \<^verbatim>\<open>/dev/ttyACM0\<close>): \<^verbatim>\<open>in_waiting\<close> has no open check and fails with a
  \<^verbatim>\<open>TypeError\<close>; the other calls raise \<^verbatim>\<open>PortNotOpenError\<close>, a \<^verbatim>\<open>SerialException\<close>.
\<close>

definition posix_closed_error :: "dev_call \<Rightarrow> exn" where
  "posix_closed_error c = (if c = DevInWaiting then TypeError else SerialException)"

text \<open>
  Modelled from the spec: the port that
  \<^verbatim>\<open>serial.Serial(com_port, baud_rate, timeout=1, writeTimeout=1)\<close> opens, with nothing
  buffered, nothing to arrive and no fault scheduled.
\<close>

definition Serial :: "string \<Rightarrow> int \<Rightarrow> serial_port" where
  "Serial com baud =
     \<lparr>port = com, baudrate = baud, is_open = True, rx = [], incoming = [], tx = [],
      tx_limit = None, fault_in = None, closed_error = posix_closed_error, calls = []\<rparr>"

text \<open>
  Modelled from the spec: the driver's input side.  The chunks whose arrival time has
  come move to the input buffer, in the order of the list.
\<close>

definition deliver :: "rat \<Rightarrow> serial_port \<Rightarrow> serial_port" where
  "deliver t p =
     p\<lparr>rx := rx p @ concat (map snd (filter (\<lambda>a. fst a \<le> t) (incoming p))),
       incoming := filter (\<lambda>a. \<not> fst a \<le> t) (incoming p)\<rparr>"

text \<open>
  Modelled from the spec: the entry of every device call.  The call is logged; it
  proceeds (\<open>None\<close>) when the port is open and the fault countdown has not run out, and
  raises otherwise: the scheduled fault is a \<^verbatim>\<open>SerialException\<close>, a call on a closed
  port raises what \<open>closed_error\<close> says.
\<close>

definition dev_enter :: "dev_call \<Rightarrow> serial_port \<Rightarrow> exn option \<times> serial_port" where
  "dev_enter c p =
     (let p1 = p\<lparr>calls := calls p @ [c]\<rparr> in
      if is_open p1 then
        (case fault_in p1 of
           None \<Rightarrow> (None, p1)
         | Some k \<Rightarrow>
             (case k of
                0 \<Rightarrow> (Some SerialException, p1\<lparr>fault_in := None\<rparr>)
              | Suc j \<Rightarrow> (None, p1\<lparr>fault_in := Some j\<rparr>)))
      else (Some (closed_error p1 c), p1))"

text \<open>
  Modelled from the spec: pyserial's \<^verbatim>\<open>write(data)\<close>, which returns the number of bytes
  the driver accepted (all of them, or at most \<open>tx_limit\<close>).
\<close>

definition dev_write :: "byte list \<Rightarrow> serial_port \<Rightarrow> (exn + nat) \<times> serial_port" where
  "dev_write d p =
     (case dev_enter (DevWrite d) p of
        (Some e, p1) \<Rightarrow> (Inl e, p1)
      | (None, p1) \<Rightarrow>
          (let k = (case tx_limit p1 of None \<Rightarrow> length d | Some m \<Rightarrow> min m (length d))
           in (Inr k, p1\<lparr>tx := tx p1 @ take k d\<rparr>)))"

text \<open>Modelled from the spec: pyserial's \<^verbatim>\<open>in_waiting\<close>, the number of bytes buffered.\<close>

definition dev_in_waiting :: "rat \<Rightarrow> serial_port \<Rightarrow> (exn + nat) \<times> serial_port" where
  "dev_in_waiting t p =
     (case dev_enter DevInWaiting p of
        (Some e, p1) \<Rightarrow> (Inl e, p1)
      | (None, p1) \<Rightarrow> (let p2 = deliver t p1 in (Inr (length (rx p2)), p2)))"

text \<open>
  Modelled from the spec: pyserial's \<^verbatim>\<open>read(size)\<close>, which takes up to \<open>size\<close> bytes
  from the buffer.
\<close>

definition dev_read :: "rat \<Rightarrow> int \<Rightarrow> serial_port \<Rightarrow> (exn + byte list) \<times> serial_port" where
  "dev_read t sz p =
     (case dev_enter (DevRead sz) p of
        (Some e, p1) \<Rightarrow> (Inl e, p1)
      | (None, p1) \<Rightarrow>
          (let p2 = deliver t p1
           in (Inr (take (nat sz) (rx p2)), p2\<lparr>rx := drop (nat sz) (rx p2)\<rparr>)))"

text \<open>
  Modelled from the spec: pyserial's \<^verbatim>\<open>read_until(expected, size)\<close>.  Bytes are taken one at a time until the
  line read so far ends with the byte string \<open>expected\<close>, or \<open>size\<close> bytes were read, or
  no byte is left (the port's own read timeout); what was read is returned.
\<close>

fun scan_until :: "byte list \<Rightarrow> int option \<Rightarrow> byte list \<Rightarrow> byte list \<Rightarrow> byte list \<times> byte list" where
  "scan_until expected sz line [] = (line, [])"
| "scan_until expected sz line (c # cs) =
     (let line1 = line @ [c] in
      if py_tail (length expected) line1 = expected then (line1, cs)
      else if (case sz of None \<Rightarrow> False | Some m \<Rightarrow> m \<le> int (length line1)) then (line1, cs)
      else scan_until expected sz line1 cs)"

text \<open>Modelled from the spec: the device call around \<open>scan_until\<close>.\<close>

definition dev_read_until ::
  "rat \<Rightarrow> byte list \<Rightarrow> int option \<Rightarrow> serial_port \<Rightarrow> (exn + byte list) \<times> serial_port" where
  "dev_read_until t expected sz p =
     (case dev_enter (DevReadUntil expected sz) p of
        (Some e, p1) \<Rightarrow> (Inl e, p1)
      | (None, p1) \<Rightarrow>
          (let p2 = deliver t p1 in
           case scan_until expected sz [] (rx p2) of (line, rest) \<Rightarrow>
             (Inr line, p2\<lparr>rx := rest\<rparr>)))"

text \<open>
  Modelled from the spec: pyserial's \<^verbatim>\<open>reset_input_buffer()\<close>, which discards what has
  arrived so far.
\<close>

definition dev_reset_input_buffer :: "rat \<Rightarrow> serial_port \<Rightarrow> (exn + unit) \<times> serial_port" where
  "dev_reset_input_buffer t p =
     (case dev_enter DevResetInputBuffer p of
        (Some e, p1) \<Rightarrow> (Inl e, p1)
      | (None, p1) \<Rightarrow> (Inr (), (deliver t p1)\<lparr>rx := []\<rparr>))"

text \<open>Modelled from the spec: pyserial's \<^verbatim>\<open>close()\<close>, which never raises.\<close>

definition dev_close :: "serial_port \<Rightarrow> serial_port" where
  "dev_close p = p\<lparr>is_open := False, calls := calls p @ [DevClose]\<rparr>"

section \<open>The adapter\<close>

text \<open>
  The owning session (\<^verbatim>\<open>telemetrix_aio_instance\<close>) has a task that can be cancelled; the
  host scheduler (the asyncio event loop) can be stopped and closed.  The state holds the
  attributes of the adapter object, the store of serial port objects that \<open>my_serial\<close>
  points into, and the environment:
  \<^item> \<open>now\<close> is the position in the fake driver's arrival script; only a suspension
    moves it, by the delay asked for.  It decides which chunks the driver has when it is
    polled and is no reading of any clock.
  \<^item> \<open>sleeps\<close> logs the suspensions (script position at the start, requested delay).
  \<^item> \<open>clock\<close> is the wall clock as the code sees it: \<open>clock k\<close> is what the \<open>k\<close>-th
    call of \<^verbatim>\<open>time.time()\<close> returns, an arbitrary input, and \<open>clock_reads\<close> counts the
    calls made so far.
  \<^item> \<open>loop_stopped\<close> and \<open>loop_closed\<close> are the condition of the event loop.
\<close>

record task =
  cancelled :: bool

record session =
  the_task :: "task option"

record state =
  my_serial :: "ref option"
  com_port :: string
  sleep_tune :: rat
  telemetrix_aio_instance :: "session option"
  close_loop_on_error :: bool
  start_time :: "rat option"
  heap :: "ref \<Rightarrow> serial_port"
  now :: rat
  sleeps :: "(rat \<times> rat) list"
  clock :: "nat \<Rightarrow> rat"
  clock_reads :: nat
  loop_stopped :: bool
  loop_closed :: bool

text \<open>
  \<^verbatim>\<open>__init__(com_port, baud_rate, sleep_tune, telemetrix_aio_instance, close_loop_on_error)\<close>:
  the port object is allocated at reference 0.  The last argument is the wall clock of
  the environment the adapter is created in.
\<close>

definition init ::
  "string \<Rightarrow> int \<Rightarrow> rat \<Rightarrow> session option \<Rightarrow> bool \<Rightarrow> (nat \<Rightarrow> rat) \<Rightarrow> state" where
  "init com baud tune inst cloe clk =
     \<lparr>my_serial = Some 0, com_port = com, sleep_tune = tune,
      telemetrix_aio_instance = inst, close_loop_on_error = cloe, start_time = None,
      heap = (\<lambda>_. Serial com baud), now = 0, sleeps = [], clock = clk, clock_reads = 0,
      loop_stopped = False, loop_closed = False\<rparr>"

text \<open>
  A wall clock on which the first two readings are 0 and every later reading is \<open>d\<close>
  after the one before: the clock of a lone \<^verbatim>\<open>read_until\<close> whose suspensions take
  exactly \<open>d\<close> and whose other steps take no time.
\<close>

definition steady_clock :: "rat \<Rightarrow> nat \<Rightarrow> rat" where
  "steady_clock d k = of_nat (k - 1) * d"

text \<open>The constructor's defaults, under a steady clock.\<close>

definition init_default :: state where
  "init_default = init ''/dev/ttyACM0'' 115200 (1 / 10000) None True (steady_clock (1 / 10000))"

text \<open>\<^verbatim>\<open>time.time()\<close>: the next reading of the wall clock.\<close>

definition time_time :: "state \<Rightarrow> rat \<times> state" where
  "time_time s = (clock s (clock_reads s), s\<lparr>clock_reads := Suc (clock_reads s)\<rparr>)"

text \<open>
  \<^verbatim>\<open>await asyncio.sleep(d)\<close>: the suspension is logged and the driver's script moves on
  by the delay asked for (not at all when \<open>d \<le> 0\<close>).  How long the suspension takes on
  the wall clock is for the environment to say, through \<open>clock\<close>.
\<close>

definition sleep :: "rat \<Rightarrow> state \<Rightarrow> state" where
  "sleep d s = s\<lparr>now := now s + max d 0, sleeps := sleeps s @ [(now s, d)]\<rparr>"

text \<open>A call on the port object that \<open>r\<close> refers to.\<close>

definition serial_call :: "(serial_port \<Rightarrow> 'a \<times> serial_port) \<Rightarrow> ref \<Rightarrow> state \<Rightarrow> 'a \<times> state" where
  "serial_call f r s = (case f (heap s r) of (x, p) \<Rightarrow> (x, s\<lparr>heap := (heap s)(r := p)\<rparr>))"

definition get_serial :: "state \<Rightarrow> outcome \<times> state" where
  "get_serial s = (Returned (case my_serial s of None \<Rightarrow> PyNone | Some r \<Rightarrow> PySerial r), s)"

text \<open>\<^verbatim>\<open>if self.my_serial: self.my_serial.close()\<close>\<close>

definition close :: "state \<Rightarrow> outcome \<times> state" where
  "close s =
     (case my_serial s of
        None \<Rightarrow> (Returned PyNone, s)
      | Some r \<Rightarrow> (Returned PyNone, s\<lparr>heap := (heap s)(r := dev_close (heap s r))\<rparr>))"

text \<open>
  The handler of \<^verbatim>\<open>read\<close> and \<^verbatim>\<open>read_until\<close>:
  \<^verbatim>\<open>except serial.SerialException as e: await self.close(); raise e\<close>.
  Any other exception propagates untouched.
\<close>

definition on_fault :: "exn \<Rightarrow> state \<Rightarrow> outcome \<times> state" where
  "on_fault e s = (if e = SerialException then (Raised e, snd (close s)) else (Raised e, s))"

text \<open>
  A block of statements: each statement either falls through to the next one, or leaves
  the block with an outcome (a \<^verbatim>\<open>raise\<close> or a \<^verbatim>\<open>return\<close>), and then the statements
  after it are not run.
\<close>

type_synonym stmt = "state \<Rightarrow> outcome option \<times> state"

fun run_block :: "stmt list \<Rightarrow> state \<Rightarrow> outcome option \<times> state" where
  "run_block [] s = (None, s)"
| "run_block (c # cs) s =
     (case c s of
        (Some out, s1) \<Rightarrow> (Some out, s1)
      | (None, s1) \<Rightarrow> run_block cs s1)"

text \<open>\<^verbatim>\<open>await self.close()\<close>\<close>

definition await_close :: stmt where
  "await_close s = (None, snd (close s))"

text \<open>\<^verbatim>\<open>raise e\<close>\<close>

definition raise_stmt :: "exn \<Rightarrow> stmt" where
  "raise_stmt e s = (Some (Raised e), s)"

text \<open>\<^verbatim>\<open>future.cancel()\<close>: the future is a local of the call and is in no state.\<close>

definition future_cancel :: stmt where
  "future_cancel s = (None, s)"

text \<open>\<^verbatim>\<open>if self.close_loop_on_error: loop = asyncio.get_event_loop(); loop.stop()\<close>\<close>

definition loop_stop :: stmt where
  "loop_stop s = (if close_loop_on_error s then (None, s\<lparr>loop_stopped := True\<rparr>) else (None, s))"

text \<open>
  \<^verbatim>\<open>if self.telemetrix_aio_instance.the_task: self.telemetrix_aio_instance.the_task.cancel()\<close>
\<close>

definition cancel_the_task :: stmt where
  "cancel_the_task s =
     (case telemetrix_aio_instance s of
        None \<Rightarrow> (Some (Raised AttributeError), s)
      | Some ses \<Rightarrow>
          (case the_task ses of
             None \<Rightarrow> (None, s)
           | Some tk \<Rightarrow>
               (None, s\<lparr>telemetrix_aio_instance :=
                           Some (ses\<lparr>the_task := Some (tk\<lparr>cancelled := True\<rparr>)\<rparr>)\<rparr>)))"

text \<open>\<^verbatim>\<open>await asyncio.sleep(1)\<close>\<close>

definition sleep_stmt :: "rat \<Rightarrow> stmt" where
  "sleep_stmt d s = (None, sleep d s)"

text \<open>\<^verbatim>\<open>if self.close_loop_on_error: loop.close()\<close>\<close>

definition loop_close :: stmt where
  "loop_close s = (if close_loop_on_error s then (None, s\<lparr>loop_closed := True\<rparr>) else (None, s))"

text \<open>
  The body of the \<^verbatim>\<open>except serial.SerialException as e:\<close> clause of \<^verbatim>\<open>write\<close>, in the
  order of the source: the \<^verbatim>\<open>raise e\<close> is its second statement.
\<close>

definition write_handler :: "exn \<Rightarrow> stmt list" where
  "write_handler e =
     [await_close, raise_stmt e, future_cancel, loop_stop, cancel_the_task, sleep_stmt 1,
      loop_close]"

text \<open>
  \<^verbatim>\<open>write(data)\<close>, named \<open>write_data\<close> here because \<open>write\<close> is a keyword of
  Isabelle.  \<^verbatim>\<open>bytes(data)\<close> and the device call are in the \<^verbatim>\<open>try\<close>; only a
  \<^verbatim>\<open>SerialException\<close> enters the handler.  After the \<^verbatim>\<open>try\<close> statement,
  \<^verbatim>\<open>if result:\<close> guards the future: a truthy result is set on the future, which is then
  done at once, and returned; with a falsy result (0, or \<^verbatim>\<open>None\<close> had the handler
  fallen through) the function falls off its end and returns \<^verbatim>\<open>None\<close>.
\<close>

definition write_data :: "int list \<Rightarrow> state \<Rightarrow> outcome \<times> state" where
  "write_data data s =
     (case my_serial s of
        None \<Rightarrow> (Raised AttributeError, s)
      | Some r \<Rightarrow>
          (case py_bytes data of
             Inl e \<Rightarrow> (Raised e, s)
           | Inr b \<Rightarrow>
               (case serial_call (dev_write b) r s of
                  (Inl e, s1) \<Rightarrow>
                    if e = SerialException then
                      (case run_block (write_handler e) s1 of
                         (Some out, s2) \<Rightarrow> (out, s2)
                       | (None, s2) \<Rightarrow> (Returned PyNone, s2))
                    else (Raised e, s1)
                | (Inr n, s1) \<Rightarrow>
                    if n \<noteq> 0 then (Returned (PyInt (int n)), s1)
                    else (Returned PyNone, s1))))"

text \<open>\<^verbatim>\<open>read(size=1)\<close>: the first argument bounds the iterations of \<^verbatim>\<open>while True\<close>.\<close>

fun read :: "nat \<Rightarrow> int \<Rightarrow> state \<Rightarrow> outcome \<times> state" where
  "read 0 sz s = (Pending, s)"
| "read (Suc fuel) sz s =
     (case my_serial s of
        None \<Rightarrow> (Raised AttributeError, s)
      | Some r \<Rightarrow>
          (case serial_call (dev_in_waiting (now s)) r s of
             (Inl e, s1) \<Rightarrow> on_fault e s1
           | (Inr n, s1) \<Rightarrow>
               if n = 0 then read fuel sz (sleep (sleep_tune s1 * 2) s1)
               else
                 (case serial_call (dev_read (now s1) sz) r s1 of
                    (Inl e, s2) \<Rightarrow> on_fault e s2
                  | (Inr data, s2) \<Rightarrow>
                      if sz = 1 then
                        (case py_ord data of
                           Inl e \<Rightarrow> on_fault e s2
                         | Inr v \<Rightarrow> (Returned (PyInt v), s2))
                      else (Returned (PyList (map uint data)), s2))))"

text \<open>
  \<^verbatim>\<open>(time.time() - start_time) > timeout\<close> for a truthy timeout; a falsy timeout (0 or
  \<^verbatim>\<open>None\<close>) never expires.
\<close>

definition timed_out :: "rat option \<Rightarrow> rat \<Rightarrow> bool" where
  "timed_out timeout elapsed =
     (case timeout of None \<Rightarrow> False | Some t \<Rightarrow> t \<noteq> 0 \<and> t < elapsed)"

text \<open>\<^verbatim>\<open>timeout\<close> as a condition: \<^verbatim>\<open>None\<close> and 0 are falsy.\<close>

definition truthy :: "rat option \<Rightarrow> bool" where
  "truthy timeout = (case timeout of None \<Rightarrow> False | Some t \<Rightarrow> t \<noteq> 0)"

text \<open>
  \<^verbatim>\<open>timeout and (time.time() - start_time) > timeout\<close>: the clock is read only when the
  timeout is truthy.
\<close>

definition deadline_passed :: "rat option \<Rightarrow> rat \<Rightarrow> state \<Rightarrow> bool \<times> state" where
  "deadline_passed timeout started s =
     (if truthy timeout then
        (case time_time s of (c, s1) \<Rightarrow> (timed_out timeout (c - started), s1))
      else (False, s))"

fun read_until_loop ::
  "nat \<Rightarrow> byte list \<Rightarrow> int option \<Rightarrow> rat option \<Rightarrow> rat \<Rightarrow> state \<Rightarrow> outcome \<times> state" where
  "read_until_loop 0 expected sz timeout started s = (Pending, s)"
| "read_until_loop (Suc fuel) expected sz timeout started s =
     (case my_serial s of
        None \<Rightarrow> (Raised AttributeError, s)
      | Some r \<Rightarrow>
          (case serial_call (dev_in_waiting (now s)) r s of
             (Inl e, s1) \<Rightarrow> on_fault e s1
           | (Inr n, s1) \<Rightarrow>
               if n = 0 then
                 (case deadline_passed timeout started s1 of
                    (True, s2) \<Rightarrow> (Returned PyNone, s2)
                  | (False, s2) \<Rightarrow>
                      read_until_loop fuel expected sz timeout started
                        (sleep (sleep_tune s2) s2))
               else
                 (case serial_call (dev_read_until (now s1) expected sz) r s1 of
                    (Inl e, s2) \<Rightarrow> on_fault e s2
                  | (Inr data, s2) \<Rightarrow> (Returned (PyList (map uint data)), s2))))"

text \<open>
  \<^verbatim>\<open>read_until(expected=LF, size=None, timeout=1)\<close>:
  \<^verbatim>\<open>expected = str(expected).encode()\<close>, \<^verbatim>\<open>start_time = time.time()\<close>, then the loop.
\<close>

definition read_until :: "nat \<Rightarrow> int \<Rightarrow> int option \<Rightarrow> rat option \<Rightarrow> state \<Rightarrow> outcome \<times> state" where
  "read_until fuel expected sz timeout s =
     (case time_time s of (started, s0) \<Rightarrow>
        read_until_loop fuel (encode (py_str expected)) sz timeout started s0)"

definition reset_input_buffer :: "state \<Rightarrow> outcome \<times> state" where
  "reset_input_buffer s =
     (case my_serial s of
        None \<Rightarrow> (Raised AttributeError, s)
      | Some r \<Rightarrow>
          (case serial_call (dev_reset_input_buffer (now s)) r s of
             (Inl e, s1) \<Rightarrow> (Raised e, s1)
           | (Inr u, s1) \<Rightarrow> (Returned PyNone, s1)))"

section \<open>Test drivers and observations\<close>

text \<open>A fake driver is set up by editing the port object the constructor opened.\<close>

definition with_port :: "(serial_port \<Rightarrow> serial_port) \<Rightarrow> state \<Rightarrow> state" where
  "with_port f s = s\<lparr>heap := (\<lambda>r. f (heap s r))\<rparr>"

text \<open>The default adapter over a driver pre-loaded with the bytes \<open>bs\<close>.\<close>

definition preloaded :: "byte list \<Rightarrow> state" where
  "preloaded bs = with_port (\<lambda>p. p\<lparr>rx := bs\<rparr>) init_default"

text \<open>
  An adapter with an owning session that has a live task, with the close-loop-on-error
  policy set, over a driver whose next call raises.
\<close>

definition faulty_session :: state where
  "faulty_session =
     with_port (\<lambda>p. p\<lparr>fault_in := Some 0\<rparr>)
       (init ''/dev/ttyACM0'' 115200 (1 / 10000)
          (Some \<lparr>the_task = Some \<lparr>cancelled = False\<rparr>\<rparr>) True (steady_clock (1 / 10000)))"

text \<open>The configuration attributes of the adapter object, with its handle.\<close>

definition config :: "state \<Rightarrow> ref option \<times> string \<times> rat \<times> session option \<times> bool" where
  "config s =
     (my_serial s, com_port s, sleep_tune s, telemetrix_aio_instance s, close_loop_on_error s)"

text \<open>
  An adapter whose poll interval is one second, over a silent driver, under a steady
  clock.
\<close>

definition slow_adapter :: state where
  "slow_adapter = init ''/dev/ttyACM0'' 115200 1 None True (steady_clock 1)"

text \<open>
  The same adapter in an environment where the first suspension is resumed late: the
  clock reads 0 at entry, 2 at the first poll and 50 at the second.
\<close>

definition overslept :: state where
  "overslept = slow_adapter\<lparr>clock := (\<lambda>k. if k = 0 then 0 else if k = 1 then 2 else 50)\<rparr>"

text \<open>
  The default adapter over a driver to which two bytes arrive once the suspensions asked
  for add up to 300 microseconds.
\<close>

definition late_data :: state where
  "late_data = with_port (\<lambda>p. p\<lparr>incoming := [(3 / 10000, [0x41, 0x42])]\<rparr>) init_default"

text \<open>The adapter after a read that hit a device fault.\<close>

definition after_fault :: state where
  "after_fault = snd (read 1 1 faulty_session)"

text \<open>A port that is open and has no fault scheduled.\<close>

definition healthy :: "serial_port \<Rightarrow> bool" where
  "healthy p = (is_open p \<and> fault_in p = None)"

text \<open>The port reports data available when polled at script position \<open>t\<close>.\<close>

definition has_data :: "rat \<Rightarrow> serial_port \<Rightarrow> bool" where
  "has_data t p = (rx (deliver t p) \<noteq> [])"

text \<open>The port has no byte buffered and none will ever arrive.\<close>

definition never_data :: "serial_port \<Rightarrow> bool" where
  "never_data p = (rx p = [] \<and> list_all (\<lambda>a. snd a = []) (incoming p))"

text \<open>The state after a successful \<^verbatim>\<open>in_waiting\<close> poll of the port at \<open>r\<close>.\<close>

definition polled :: "ref \<Rightarrow> state \<Rightarrow> state" where
  "polled r s =
     s\<lparr>heap := (heap s)(r := (deliver (now s) (heap s r))\<lparr>calls := calls (heap s r) @ [DevInWaiting]\<rparr>)\<rparr>"

section \<open>Frame lemmas\<close>

lemma config_serial_call [simp]: "config (snd (serial_call f r s)) = config s"
  by (simp add: serial_call_def config_def split: prod.splits)

lemma config_sleep [simp]: "config (sleep d s) = config s"
  by (simp add: sleep_def config_def)

lemma config_close [simp]: "config (snd (close s)) = config s"
  by (simp add: close_def config_def split: option.splits)

lemma config_on_fault [simp]: "config (snd (on_fault e s)) = config s"
  by (simp add: on_fault_def)

lemma write_handler_raises: "run_block (write_handler e) s = (Some (Raised e), snd (close s))"
  by (simp add: write_handler_def await_close_def raise_stmt_def)

lemma config_write_data: "config (snd (write_data d s)) = config s"
  by (simp add: write_data_def case_prod_beta write_handler_raises split: option.split sum.split)

lemma config_read: "config (snd (read n sz s)) = config s"
proof (induction n arbitrary: s)
  case 0
  then show ?case by simp
next
  case (Suc n)
  show ?case
    by (simp add: Suc.IH case_prod_beta split: option.split sum.split)
qed

lemma time_time_fields [simp]:
  "fst (time_time s) = clock s (clock_reads s)"
  "clock (snd (time_time s)) = clock s"
  "clock_reads (snd (time_time s)) = Suc (clock_reads s)"
  "now (snd (time_time s)) = now s"
  "sleeps (snd (time_time s)) = sleeps s"
  "sleep_tune (snd (time_time s)) = sleep_tune s"
  "my_serial (snd (time_time s)) = my_serial s"
  "heap (snd (time_time s)) = heap s"
  "config (snd (time_time s)) = config s"
  by (simp_all add: time_time_def config_def)

lemma timed_out_truthy: "timed_out tmo x \<Longrightarrow> truthy tmo"
  by (cases tmo) (simp_all add: timed_out_def truthy_def)

lemma fst_deadline_passed [simp]:
  "fst (deadline_passed tmo st s) = timed_out tmo (clock s (clock_reads s) - st)"
  using timed_out_truthy [of tmo "clock s (clock_reads s) - st"]
  by (auto simp: deadline_passed_def case_prod_beta)

lemma deadline_passed_fields [simp]:
  "clock (snd (deadline_passed tmo st s)) = clock s"
  "clock_reads (snd (deadline_passed tmo st s)) =
     (if truthy tmo then Suc (clock_reads s) else clock_reads s)"
  "now (snd (deadline_passed tmo st s)) = now s"
  "sleeps (snd (deadline_passed tmo st s)) = sleeps s"
  "sleep_tune (snd (deadline_passed tmo st s)) = sleep_tune s"
  "my_serial (snd (deadline_passed tmo st s)) = my_serial s"
  "heap (snd (deadline_passed tmo st s)) = heap s"
  "config (snd (deadline_passed tmo st s)) = config s"
  by (simp_all add: deadline_passed_def case_prod_beta)

lemma deadline_passed_falsy: "\<not> truthy tmo \<Longrightarrow> deadline_passed tmo st s = (False, s)"
  by (simp add: deadline_passed_def)

lemma config_read_until_loop: "config (snd (read_until_loop n e sz t st s)) = config s"
proof (induction n arbitrary: s)
  case 0
  then show ?case by simp
next
  case (Suc n)
  show ?case
    by (simp add: Suc.IH case_prod_beta split: option.split sum.split bool.split)
qed

lemma config_read_until: "config (snd (read_until n e sz t s)) = config s"
  by (simp add: read_until_def case_prod_beta config_read_until_loop)

lemma config_reset_input_buffer: "config (snd (reset_input_buffer s)) = config s"
  by (simp add: reset_input_buffer_def case_prod_beta split: option.split sum.split)

section \<open>The port when polled\<close>

lemma serial_call_fields [simp]:
  "now (snd (serial_call f r s)) = now s"
  "sleeps (snd (serial_call f r s)) = sleeps s"
  "sleep_tune (snd (serial_call f r s)) = sleep_tune s"
  "my_serial (snd (serial_call f r s)) = my_serial s"
  "clock (snd (serial_call f r s)) = clock s"
  "clock_reads (snd (serial_call f r s)) = clock_reads s"
  by (simp_all add: serial_call_def split: prod.splits)

lemma on_fault_fields [simp]:
  "now (snd (on_fault e s)) = now s"
  "sleeps (snd (on_fault e s)) = sleeps s"
  "sleep_tune (snd (on_fault e s)) = sleep_tune s"
  "my_serial (snd (on_fault e s)) = my_serial s"
  "clock (snd (on_fault e s)) = clock s"
  "clock_reads (snd (on_fault e s)) = clock_reads s"
  "fst (on_fault e s) = Raised e"
  by (simp_all add: on_fault_def close_def split: option.splits)

lemma sleep_fields [simp]:
  "now (sleep d s) = now s + max d 0"
  "sleeps (sleep d s) = sleeps s @ [(now s, d)]"
  "sleep_tune (sleep d s) = sleep_tune s"
  "my_serial (sleep d s) = my_serial s"
  "clock (sleep d s) = clock s"
  "clock_reads (sleep d s) = clock_reads s"
  "heap (sleep d s) = heap s"
  by (simp_all add: sleep_def)

lemma polled_fields [simp]:
  "now (polled r s) = now s"
  "sleeps (polled r s) = sleeps s"
  "sleep_tune (polled r s) = sleep_tune s"
  "my_serial (polled r s) = my_serial s"
  "clock (polled r s) = clock s"
  "clock_reads (polled r s) = clock_reads s"
  by (simp_all add: polled_def)

lemma heap_polled:
  "heap (polled r s) r = (deliver (now s) (heap s r))\<lparr>calls := calls (heap s r) @ [DevInWaiting]\<rparr>"
  by (simp add: polled_def)

lemma dev_enter_healthy: "healthy p \<Longrightarrow> dev_enter c p = (None, p\<lparr>calls := calls p @ [c]\<rparr>)"
  by (simp add: healthy_def dev_enter_def)

lemma deliver_calls: "deliver t (p\<lparr>calls := c\<rparr>) = (deliver t p)\<lparr>calls := c\<rparr>"
  by (simp add: deliver_def)

lemma dev_in_waiting_healthy:
  "healthy p \<Longrightarrow> dev_in_waiting t p =
     (Inr (length (rx (deliver t p))), (deliver t p)\<lparr>calls := calls p @ [DevInWaiting]\<rparr>)"
  by (simp add: dev_in_waiting_def dev_enter_healthy deliver_calls)

lemma poll_healthy:
  "healthy (heap s r) \<Longrightarrow>
   serial_call (dev_in_waiting (now s)) r s = (Inr (length (rx (deliver (now s) (heap s r)))), polled r s)"
  by (simp add: serial_call_def dev_in_waiting_healthy polled_def)

lemma healthy_polled [simp]: "healthy (heap (polled r s) r) = healthy (heap s r)"
  by (simp add: healthy_def deliver_def heap_polled)

lemma rx_deliver_empty:
  "rx (deliver t p) = [] \<longleftrightarrow> rx p = [] \<and> (\<forall>a \<in> set (incoming p). fst a \<le> t \<longrightarrow> snd a = [])"
  by (auto simp: deliver_def)

lemma has_data_mono: "has_data t p \<Longrightarrow> t \<le> u \<Longrightarrow> has_data u p"
  unfolding has_data_def rx_deliver_empty by (meson order_trans)

lemma has_data_deliver:
  assumes "t \<le> u"
  shows "has_data u ((deliver t p)\<lparr>calls := c\<rparr>) = has_data u p"
proof -
  have inc: "incoming ((deliver t p)\<lparr>calls := c\<rparr>) = filter (\<lambda>a. \<not> fst a \<le> t) (incoming p)"
    by (simp add: deliver_def)
  have "rx (deliver u ((deliver t p)\<lparr>calls := c\<rparr>)) = [] \<longleftrightarrow>
      rx (deliver t p) = [] \<and>
      (\<forall>a \<in> set (incoming p). \<not> fst a \<le> t \<longrightarrow> fst a \<le> u \<longrightarrow> snd a = [])"
    by (auto simp: rx_deliver_empty [of u] inc)
  also have "\<dots> \<longleftrightarrow>
      (rx p = [] \<and> (\<forall>a \<in> set (incoming p). fst a \<le> t \<longrightarrow> snd a = [])) \<and>
      (\<forall>a \<in> set (incoming p). \<not> fst a \<le> t \<longrightarrow> fst a \<le> u \<longrightarrow> snd a = [])"
    by (simp add: rx_deliver_empty [of t])
  also have "\<dots> \<longleftrightarrow> rx p = [] \<and> (\<forall>a \<in> set (incoming p). fst a \<le> u \<longrightarrow> snd a = [])"
    using assms by (meson order_trans)
  finally show ?thesis
    by (simp add: has_data_def rx_deliver_empty [of u p])
qed

lemma has_data_polled: "now s \<le> u \<Longrightarrow> has_data u (heap (polled r s) r) = has_data u (heap s r)"
  by (simp add: has_data_deliver heap_polled)

lemma never_data_no_data: "never_data p \<Longrightarrow> \<not> has_data t p"
  by (auto simp: never_data_def has_data_def rx_deliver_empty list_all_iff)

lemma dev_read_until_healthy:
  "healthy p \<Longrightarrow> dev_read_until t e sz p =
     (Inr (fst (scan_until e sz [] (rx (deliver t p)))),
      (deliver t p)\<lparr>calls := calls p @ [DevReadUntil e sz], rx := snd (scan_until e sz [] (rx (deliver t p)))\<rparr>)"
  by (simp add: dev_read_until_def dev_enter_healthy deliver_calls case_prod_beta)


lemma read_until_call_healthy:
  "healthy (heap s r) \<Longrightarrow> fst (serial_call (dev_read_until t e sz) r s) =
     Inr (fst (scan_until e sz [] (rx (deliver t (heap s r)))))"
  by (simp add: serial_call_def dev_read_until_healthy)

lemma read_until_loop_data:
  assumes "my_serial s = Some r" "healthy (heap s r)" "has_data (now s) (heap s r)"
  shows "\<exists>bs. fst (read_until_loop (Suc n) e sz tmo st s) = Returned (PyList bs)"
  using assms
  by (simp add: poll_healthy has_data_def case_prod_beta read_until_call_healthy)


lemma read_until_loop_no_data:
  assumes "my_serial s = Some r" "healthy (heap s r)" "\<not> has_data (now s) (heap s r)"
  shows "read_until_loop (Suc n) e sz tmo st s =
     (if timed_out tmo (clock s (clock_reads s) - st)
      then (Returned PyNone, snd (deadline_passed tmo st (polled r s)))
      else read_until_loop n e sz tmo st
             (sleep (sleep_tune s) (snd (deadline_passed tmo st (polled r s)))))"
  using assms
  by (simp add: poll_healthy has_data_def case_prod_beta split: bool.split)

lemma never_data_polled [simp]: "never_data (heap (polled r s) r) = never_data (heap s r)"
  by (auto simp: never_data_def heap_polled deliver_def list_all_iff) blast

lemma calls_polled [simp]: "calls (heap (polled r s) r) = calls (heap s r) @ [DevInWaiting]"
  by (simp add: heap_polled)

lemma read_until_loop_none_iff:
  assumes "my_serial s = Some r" "healthy (heap s r)" "t \<noteq> 0"
  shows "fst (read_until_loop n e sz (Some t) st s) = Returned PyNone \<longleftrightarrow>
     (\<exists>k<n. \<not> has_data (now s + of_nat k * max (sleep_tune s) 0) (heap s r) \<and>
            t < clock s (clock_reads s + k) - st)"
  using assms
proof (induction n arbitrary: s)
  case 0
  then show ?case by simp
next
  case (Suc n)
  let ?d = "max (sleep_tune s) 0"
  let ?p = "heap s r"
  have tr: "truthy (Some t)"
    using Suc.prems(3) by (simp add: truthy_def)
  show ?case
  proof (cases "has_data (now s) ?p")
    case True
    have "\<And>k::nat. has_data (now s + of_nat k * ?d) ?p"
      by (rule has_data_mono [OF True]) simp
    moreover obtain bs where "fst (read_until_loop (Suc n) e sz (Some t) st s) = Returned (PyList bs)"
      using read_until_loop_data [OF Suc.prems(1,2) True] by blast
    ultimately show ?thesis by simp
  next
    case False
    note step = read_until_loop_no_data [OF Suc.prems(1,2) False, of n e sz "Some t" st]
    show ?thesis
    proof (cases "t < clock s (clock_reads s) - st")
      case True
      have "fst (read_until_loop (Suc n) e sz (Some t) st s) = Returned PyNone"
        using step True Suc.prems(3) by (simp add: timed_out_def)
      moreover have "\<not> has_data (now s + of_nat 0 * ?d) ?p \<and> t < clock s (clock_reads s + 0) - st"
        using False True by simp
      ultimately show ?thesis by blast
    next
      case nt: False
      let ?s' = "sleep (sleep_tune s) (snd (deadline_passed (Some t) st (polled r s)))"
      have eq: "read_until_loop (Suc n) e sz (Some t) st s = read_until_loop n e sz (Some t) st ?s'"
        using step nt by (simp add: timed_out_def)
      have ih: "fst (read_until_loop n e sz (Some t) st ?s') = Returned PyNone \<longleftrightarrow>
          (\<exists>k<n. \<not> has_data (now ?s' + of_nat k * max (sleep_tune ?s') 0) (heap ?s' r) \<and>
            t < clock ?s' (clock_reads ?s' + k) - st)"
        using Suc.prems by (intro Suc.IH) simp_all
      have hd: "\<And>k::nat. has_data (now s + ?d + of_nat k * ?d) (heap (polled r s) r) =
                 has_data (now s + of_nat (Suc k) * ?d) ?p"
      proof -
        fix k :: nat
        have "now s \<le> now s + ?d + of_nat k * ?d" by simp
        then show "has_data (now s + ?d + of_nat k * ?d) (heap (polled r s) r) =
                 has_data (now s + of_nat (Suc k) * ?d) ?p"
          by (simp add: has_data_polled algebra_simps)
      qed
      have "(\<exists>k<Suc n. \<not> has_data (now s + of_nat k * ?d) ?p \<and>
                t < clock s (clock_reads s + k) - st) \<longleftrightarrow>
            (\<exists>k<n. \<not> has_data (now s + of_nat (Suc k) * ?d) ?p \<and>
                t < clock s (clock_reads s + Suc k) - st)"
        using nt by (simp add: Ex_less_Suc2 del: of_nat_Suc)
      then show ?thesis
        using ih hd tr unfolding eq by simp
    qed
  qed
qed

lemma falsy_not_truthy: "tmo = None \<or> tmo = Some 0 \<Longrightarrow> \<not> truthy tmo"
  by (auto simp: truthy_def)

lemma read_until_loop_not_none:
  "\<not> truthy tmo \<Longrightarrow> fst (read_until_loop n e sz tmo st s) \<noteq> Returned PyNone"
proof (induction n arbitrary: s)
  case 0
  then show ?case by simp
next
  case (Suc n)
  have ih: "\<And>s. fst (read_until_loop n e sz tmo st s) \<noteq> Returned PyNone"
    using Suc.IH Suc.prems by blast
  show ?case
    by (simp add: deadline_passed_falsy [OF Suc.prems] ih case_prod_beta
        split: option.split sum.split)
qed

lemma read_until_loop_quiet:
  assumes "my_serial s = Some r" "healthy (heap s r)" "never_data (heap s r)"
    "tmo = None \<or> tmo = Some 0"
  shows "fst (read_until_loop n e sz tmo st s) = Pending \<and>
     calls (heap (snd (read_until_loop n e sz tmo st s)) r) =
       calls (heap s r) @ replicate n DevInWaiting \<and>
     now (snd (read_until_loop n e sz tmo st s)) = now s + of_nat n * max (sleep_tune s) 0 \<and>
     length (sleeps (snd (read_until_loop n e sz tmo st s))) = length (sleeps s) + n"
  using assms
proof (induction n arbitrary: s)
  case 0
  then show ?case by simp
next
  case (Suc n)
  let ?s' = "sleep (sleep_tune s) (polled r s)"
  have nd: "\<not> has_data (now s) (heap s r)"
    using Suc.prems(3) by (rule never_data_no_data)
  have ft: "\<not> truthy tmo"
    using Suc.prems(4) by (rule falsy_not_truthy)
  have nt: "\<not> timed_out tmo x" for x
    using ft timed_out_truthy by blast
  have eq: "read_until_loop (Suc n) e sz tmo st s = read_until_loop n e sz tmo st ?s'"
    using read_until_loop_no_data [OF Suc.prems(1,2) nd, of n e sz tmo st] nt
    by (simp add: deadline_passed_falsy [OF ft])
  have ih: "fst (read_until_loop n e sz tmo st ?s') = Pending \<and>
     calls (heap (snd (read_until_loop n e sz tmo st ?s')) r) =
       calls (heap ?s' r) @ replicate n DevInWaiting \<and>
     now (snd (read_until_loop n e sz tmo st ?s')) = now ?s' + of_nat n * max (sleep_tune ?s') 0 \<and>
     length (sleeps (snd (read_until_loop n e sz tmo st ?s'))) = length (sleeps ?s') + n"
    using Suc.prems by (intro Suc.IH) simp_all
  show ?case
    using ih unfolding eq by (simp add: replicate_app_Cons_same algebra_simps)
qed

lemma read_until_loop_sleeps:
  assumes "t \<noteq> 0"
  shows "\<exists>new. sleeps (snd (read_until_loop n e sz (Some t) st s)) = sleeps s @ new \<and>
     list_all (\<lambda>(c, d). d = sleep_tune s) new \<and>
     (\<forall>i<length new. clock s (clock_reads s + i) - st \<le> t)"
proof (induction n arbitrary: s)
  case 0
  show ?case by simp
next
  case (Suc n)
  have tr: "truthy (Some t)"
    using assms by (simp add: truthy_def)
  show ?case
  proof (cases "my_serial s")
    case None
    then show ?thesis by simp
  next
    case (Some r)
    let ?pr = "serial_call (dev_in_waiting (now s)) r s"
    show ?thesis
    proof (cases "fst ?pr")
      case (Inl er)
      then show ?thesis using Some by (simp add: case_prod_beta)
    next
      case (Inr k)
      show ?thesis
      proof (cases "k = 0")
        case False
        then show ?thesis using Some Inr
          by (simp add: case_prod_beta split: sum.split)
      next
        case True
        show ?thesis
        proof (cases "timed_out (Some t) (clock s (clock_reads s) - st)")
          case True
          then show ?thesis using Some Inr \<open>k = 0\<close>
            by (simp add: case_prod_beta split: bool.split)
        next
          case False
          let ?s' = "sleep (sleep_tune s) (snd (deadline_passed (Some t) st (snd ?pr)))"
          have eq: "read_until_loop (Suc n) e sz (Some t) st s = read_until_loop n e sz (Some t) st ?s'"
            using Some Inr \<open>k = 0\<close> False by (simp add: case_prod_beta split: bool.split)
          obtain new where new: "sleeps (snd (read_until_loop n e sz (Some t) st ?s')) = sleeps ?s' @ new"
            "list_all (\<lambda>(c, d). d = sleep_tune ?s') new"
            "\<forall>i<length new. clock ?s' (clock_reads ?s' + i) - st \<le> t"
            using Suc.IH [of ?s'] by blast
          have le: "clock s (clock_reads s) - st \<le> t"
            using False assms by (simp add: timed_out_def)
          have "sleeps (snd (read_until_loop (Suc n) e sz (Some t) st s)) = sleeps s @ ((now s, sleep_tune s) # new)"
            using new(1) unfolding eq by simp
          moreover have "list_all (\<lambda>(c, d). d = sleep_tune s) ((now s, sleep_tune s) # new)"
            using new(2) by simp
          moreover have "\<forall>i<length ((now s, sleep_tune s) # new). clock s (clock_reads s + i) - st \<le> t"
            using new(3) le tr by (simp add: All_less_Suc2)
          ultimately show ?thesis by blast
        qed
      qed
    qed
  qed
qed


section \<open>The polling loops\<close>

lemma read_not_none: "fst (read n sz s) \<noteq> Returned PyNone"
proof (induction n arbitrary: s)
  case 0
  then show ?case by simp
next
  case (Suc n)
  show ?case
    by (simp add: Suc.IH case_prod_beta split: option.split sum.split)
qed

lemma read_no_data:
  assumes "my_serial s = Some r" "healthy (heap s r)" "\<not> has_data (now s) (heap s r)"
  shows "read (Suc n) sz s = read n sz (sleep (sleep_tune s * 2) (polled r s))"
  using assms by (simp add: poll_healthy has_data_def)

lemma read_data:
  assumes "my_serial s = Some r" "healthy (heap s r)" "has_data (now s) (heap s r)"
  shows "fst (read (Suc n) sz s) \<noteq> Pending"
  using assms
  by (simp add: poll_healthy has_data_def case_prod_beta split: sum.split)

lemma read_pending_iff:
  assumes "my_serial s = Some r" "healthy (heap s r)"
  shows "fst (read n sz s) = Pending \<longleftrightarrow>
     (\<forall>k<n. \<not> has_data (now s + of_nat k * max (sleep_tune s * 2) 0) (heap s r))"
  using assms
proof (induction n arbitrary: s)
  case 0
  then show ?case by simp
next
  case (Suc n)
  let ?d = "max (sleep_tune s * 2) 0"
  let ?p = "heap s r"
  show ?case
  proof (cases "has_data (now s) ?p")
    case True
    have "\<not> (\<forall>k<Suc n. \<not> has_data (now s + of_nat k * ?d) ?p)"
      using True by (auto intro: exI [of _ 0])
    then show ?thesis
      using read_data [OF Suc.prems True, of n sz] by simp
  next
    case False
    let ?s' = "sleep (sleep_tune s * 2) (polled r s)"
    have eq: "read (Suc n) sz s = read n sz ?s'"
      by (rule read_no_data [OF Suc.prems False])
    have ih: "fst (read n sz ?s') = Pending \<longleftrightarrow>
       (\<forall>k<n. \<not> has_data (now ?s' + of_nat k * max (sleep_tune ?s' * 2) 0) (heap ?s' r))"
      using Suc.prems by (intro Suc.IH) simp_all
    have hd: "\<And>k::nat. has_data (now s + ?d + of_nat k * ?d) (heap (polled r s) r) =
               has_data (now s + of_nat (Suc k) * ?d) ?p"
    proof -
      fix k :: nat
      have "now s \<le> now s + ?d + of_nat k * ?d" by simp
      then show "has_data (now s + ?d + of_nat k * ?d) (heap (polled r s) r) =
               has_data (now s + of_nat (Suc k) * ?d) ?p"
        by (simp add: has_data_polled algebra_simps)
    qed
    have "(\<forall>k<Suc n. \<not> has_data (now s + of_nat k * ?d) ?p) \<longleftrightarrow>
          (\<forall>k<n. \<not> has_data (now s + of_nat (Suc k) * ?d) ?p)"
      using False by (simp add: All_less_Suc2 del: of_nat_Suc)
    then show ?thesis
      using ih hd unfolding eq by simp
  qed
qed

lemma read_sleeps:
  "\<exists>new. sleeps (snd (read n sz s)) = sleeps s @ new \<and>
     list_all (\<lambda>(c, d). d = sleep_tune s * 2) new \<and>
     (fst (read n sz s) = Pending \<longrightarrow> length new = n)"
proof (induction n arbitrary: s)
  case 0
  show ?case by simp
next
  case (Suc n)
  show ?case
  proof (cases "my_serial s")
    case None
    then show ?thesis by simp
  next
    case (Some r)
    let ?pr = "serial_call (dev_in_waiting (now s)) r s"
    show ?thesis
    proof (cases "fst ?pr")
      case (Inl er)
      then show ?thesis using Some by (simp add: case_prod_beta)
    next
      case (Inr k)
      show ?thesis
      proof (cases "k = 0")
        case False
        then show ?thesis using Some Inr
          by (simp add: case_prod_beta split: sum.split)
      next
        case True
        let ?s' = "sleep (sleep_tune s * 2) (snd ?pr)"
        have eq: "read (Suc n) sz s = read n sz ?s'"
          using Some Inr True by (simp add: case_prod_beta)
        obtain new where new: "sleeps (snd (read n sz ?s')) = sleeps ?s' @ new"
          "list_all (\<lambda>(c, d). d = sleep_tune ?s' * 2) new"
          "fst (read n sz ?s') = Pending \<longrightarrow> length new = n"
          using Suc.IH [of ?s'] by blast
        have "sleeps (snd (read (Suc n) sz s)) = sleeps s @ ((now s, sleep_tune s * 2) # new)"
          using new(1) unfolding eq by simp
        moreover have "list_all (\<lambda>(c, d). d = sleep_tune s * 2) ((now s, sleep_tune s * 2) # new)"
          using new(2) by simp
        moreover have "fst (read (Suc n) sz s) = Pending \<longrightarrow> length ((now s, sleep_tune s * 2) # new) = Suc n"
          using new(3) unfolding eq by simp
        ultimately show ?thesis by blast
      qed
    qed
  qed
qed

lemma calls_dev_enter: "calls (snd (dev_enter c p)) = calls p @ [c]"
  by (simp add: dev_enter_def Let_def split: option.split nat.split)

lemma dev_enter_cases:
  "dev_enter c p = (None, snd (dev_enter c p)) \<or> (\<exists>e. dev_enter c p = (Some e, snd (dev_enter c p)))"
  by (cases "fst (dev_enter c p)") (simp_all add: prod_eq_iff)

lemma calls_dev_in_waiting: "calls (snd (dev_in_waiting t p)) = calls p @ [DevInWaiting]"
  using calls_dev_enter [of DevInWaiting p]
  by (simp add: dev_in_waiting_def case_prod_beta deliver_def Let_def split: option.split)


lemma calls_dev_read: "calls (snd (dev_read t sz p)) = calls p @ [DevRead sz]"
  using calls_dev_enter [of "DevRead sz" p]
  by (simp add: dev_read_def case_prod_beta deliver_def Let_def split: option.split)


lemma calls_dev_read_until: "calls (snd (dev_read_until t e sz p)) = calls p @ [DevReadUntil e sz]"
  using calls_dev_enter [of "DevReadUntil e sz" p]
  by (simp add: dev_read_until_def case_prod_beta deliver_def Let_def split: option.split)

lemma heap_serial_call: "heap (snd (serial_call f r s)) r = snd (f (heap s r))"
  by (simp add: serial_call_def case_prod_beta)





lemma on_fault_closed:
  "my_serial s = Some r \<Longrightarrow>
   is_open (heap (snd (on_fault er s)) r) = (er \<noteq> SerialException \<and> is_open (heap s r))"
  by (simp add: on_fault_def close_def dev_close_def)

lemma close_closed: "my_serial s = Some r \<Longrightarrow> \<not> is_open (heap (snd (close s)) r)"
  by (simp add: close_def dev_close_def)

lemma write_data_fault_closed:
  "my_serial s = Some r \<Longrightarrow> fst (write_data d s) = Raised SerialException \<longrightarrow>
     \<not> is_open (heap (snd (write_data d s)) r)"
  by (simp add: write_data_def case_prod_beta write_handler_raises close_closed py_bytes_def
      split: sum.split)

lemma read_fault_closed:
  "my_serial s = Some r \<Longrightarrow> fst (read n sz s) = Raised SerialException \<longrightarrow>
     \<not> is_open (heap (snd (read n sz s)) r)"
proof (induction n arbitrary: s)
  case 0
  then show ?case by simp
next
  case (Suc n)
  have ih: "\<And>s. my_serial s = Some r \<Longrightarrow> fst (read n sz s) = Raised SerialException \<longrightarrow>
     \<not> is_open (heap (snd (read n sz s)) r)"
    by (rule Suc.IH)
  show ?case
    using Suc.prems
    by (simp add: ih case_prod_beta on_fault_closed split: sum.split)
qed

lemma read_until_loop_fault_closed:
  "my_serial s = Some r \<Longrightarrow> fst (read_until_loop n e sz tmo st s) = Raised SerialException \<longrightarrow>
     \<not> is_open (heap (snd (read_until_loop n e sz tmo st s)) r)"
proof (induction n arbitrary: s)
  case 0
  then show ?case by simp
next
  case (Suc n)
  have ih: "\<And>s. my_serial s = Some r \<Longrightarrow>
     fst (read_until_loop n e sz tmo st s) = Raised SerialException \<longrightarrow>
     \<not> is_open (heap (snd (read_until_loop n e sz tmo st s)) r)"
    by (rule Suc.IH)
  show ?case
    using Suc.prems
    by (simp add: ih case_prod_beta on_fault_closed split: sum.split bool.split)
qed

lemma calls_dev_write: "calls (snd (dev_write b p)) = calls p @ [DevWrite b]"
  using calls_dev_enter [of "DevWrite b" p]
  by (simp add: dev_write_def case_prod_beta Let_def split: option.split)

lemma calls_close:
  "my_serial s = Some r \<Longrightarrow> calls (heap (snd (close s)) r) = calls (heap s r) @ [DevClose]"
  by (simp add: close_def dev_close_def)

lemma calls_on_fault:
  "my_serial s = Some r \<Longrightarrow>
   calls (heap (snd (on_fault er s)) r) =
     calls (heap s r) @ (if er = SerialException then [DevClose] else [])"
  by (simp add: on_fault_def calls_close)

lemma read_calls:
  assumes "my_serial s = Some r"
  shows "\<exists>new. calls (heap (snd (read n sz s)) r) = calls (heap s r) @ new \<and>
           (n \<noteq> 0 \<longrightarrow> (\<exists>rest. new = DevInWaiting # rest))"
  using assms
proof (induction n arbitrary: s)
  case 0
  then show ?case by simp
next
  case (Suc n)
  let ?pr = "serial_call (dev_in_waiting (now s)) r s"
  let ?s1 = "snd ?pr"
  have c1: "calls (heap ?s1 r) = calls (heap s r) @ [DevInWaiting]"
    by (simp add: heap_serial_call calls_dev_in_waiting)
  have m1: "my_serial ?s1 = Some r"
    using Suc.prems by simp
  have "\<exists>rest. calls (heap (snd (read (Suc n) sz s)) r) = calls (heap s r) @ DevInWaiting # rest"
  proof (cases "fst ?pr")
    case (Inl er)
    then show ?thesis
      using Suc.prems c1 by (simp add: case_prod_beta calls_on_fault [OF m1])
  next
    case (Inr m)
    show ?thesis
    proof (cases "m = 0")
      case True
      let ?s' = "sleep (sleep_tune s * 2) ?s1"
      have eq: "read (Suc n) sz s = read n sz ?s'"
        using Suc.prems Inr True by (simp add: case_prod_beta)
      have "my_serial ?s' = Some r"
        using Suc.prems by simp
      from Suc.IH [OF this]
      obtain new where "calls (heap (snd (read n sz ?s')) r) = calls (heap ?s' r) @ new"
        by blast
      then show ?thesis
        unfolding eq using c1 by simp
    next
      case False
      have c2: "calls (heap (snd (serial_call (dev_read (now s) z) r ?s1)) r) =
                  calls (heap s r) @ [DevInWaiting, DevRead z]" for z
        using c1 by (simp add: heap_serial_call calls_dev_read)
      show ?thesis
        using Suc.prems Inr False
        by (simp add: c2 case_prod_beta calls_on_fault split: sum.split)
    qed
  qed
  then show ?case by blast
qed

lemma read_until_loop_calls:
  assumes "my_serial s = Some r"
  shows "\<exists>new. calls (heap (snd (read_until_loop n e sz tmo st s)) r) = calls (heap s r) @ new \<and>
           (n \<noteq> 0 \<longrightarrow> (\<exists>rest. new = DevInWaiting # rest))"
  using assms
proof (induction n arbitrary: s)
  case 0
  then show ?case by simp
next
  case (Suc n)
  let ?pr = "serial_call (dev_in_waiting (now s)) r s"
  let ?s1 = "snd ?pr"
  have c1: "calls (heap ?s1 r) = calls (heap s r) @ [DevInWaiting]"
    by (simp add: heap_serial_call calls_dev_in_waiting)
  have m1: "my_serial ?s1 = Some r"
    using Suc.prems by simp
  have "\<exists>rest. calls (heap (snd (read_until_loop (Suc n) e sz tmo st s)) r) =
          calls (heap s r) @ DevInWaiting # rest"
  proof (cases "fst ?pr")
    case (Inl er)
    then show ?thesis
      using Suc.prems c1 by (simp add: case_prod_beta calls_on_fault [OF m1])
  next
    case (Inr m)
    show ?thesis
    proof (cases "m = 0")
      case True
      let ?s2 = "snd (deadline_passed tmo st ?s1)"
      let ?s' = "sleep (sleep_tune s) ?s2"
      show ?thesis
      proof (cases "timed_out tmo (clock s (clock_reads s) - st)")
        case to: True
        have "read_until_loop (Suc n) e sz tmo st s = (Returned PyNone, ?s2)"
          using Suc.prems Inr True to by (simp add: case_prod_beta split: bool.split)
        then show ?thesis using c1 by simp
      next
        case False
        have eq: "read_until_loop (Suc n) e sz tmo st s = read_until_loop n e sz tmo st ?s'"
          using Suc.prems Inr True False by (simp add: case_prod_beta split: bool.split)
        have "my_serial ?s' = Some r"
          using Suc.prems by simp
        from Suc.IH [OF this]
        obtain new where
          "calls (heap (snd (read_until_loop n e sz tmo st ?s')) r) = calls (heap ?s' r) @ new"
          by blast
        then show ?thesis
          unfolding eq using c1 by simp
      qed
    next
      case False
      have c2: "calls (heap (snd (serial_call (dev_read_until (now s) e sz) r ?s1)) r) =
                  calls (heap s r) @ [DevInWaiting, DevReadUntil e sz]"
        using c1 by (simp add: heap_serial_call calls_dev_read_until)
      show ?thesis
        using Suc.prems Inr False
        by (simp add: c2 case_prod_beta calls_on_fault split: sum.split)
    qed
  qed
  then show ?case by blast
qed

lemma write_data_calls:
  assumes "my_serial s = Some r" "py_bytes d = Inr b"
  shows "\<exists>rest. calls (heap (snd (write_data d s)) r) = calls (heap s r) @ DevWrite b # rest"
proof -
  let ?wr = "serial_call (dev_write b) r s"
  have c1: "calls (heap (snd ?wr) r) = calls (heap s r) @ [DevWrite b]"
    by (simp add: heap_serial_call calls_dev_write)
  have m1: "my_serial (snd ?wr) = Some r"
    using assms(1) by simp
  show ?thesis
    using assms c1
    by (simp add: write_data_def case_prod_beta write_handler_raises calls_close [OF m1]
        split: sum.split)
qed

lemma close_returns: "fst (close s) = Returned PyNone"
  by (simp add: close_def split: option.split)


section \<open>Fault handling of write\<close>

text \<open>
  C1.  The claim: when a write hits a serial exception, the adapter closes its handle,
  cancels the owning session's task and, when the close-loop-on-error flag is set, stops
  the event loop, all before the exception reaches the caller.  The handler closes the
  handle and raises at once: with a session whose task is live and the flag set, the
  task is still not cancelled and the loop still not stopped when the exception is
  raised.  The statements that would do both stand after the \<^verbatim>\<open>raise\<close>: run on
  their own (the handler without its first two statements) they cancel the task and
  stop the loop.
\<close>

theorem write_fault_closes_and_raises_only:
  "fst (write_data [1, 2, 3] faulty_session) = Raised SerialException \<and>
   is_open (heap (snd (write_data [1, 2, 3] faulty_session)) 0) = False \<and>
   telemetrix_aio_instance (snd (write_data [1, 2, 3] faulty_session)) =
     Some \<lparr>the_task = Some \<lparr>cancelled = False\<rparr>\<rparr> \<and>
   close_loop_on_error (snd (write_data [1, 2, 3] faulty_session)) = True \<and>
   loop_stopped (snd (write_data [1, 2, 3] faulty_session)) = False \<and>
   telemetrix_aio_instance
     (snd (run_block (drop 2 (write_handler SerialException)) faulty_session)) =
     Some \<lparr>the_task = Some \<lparr>cancelled = True\<rparr>\<rparr> \<and>
   loop_stopped (snd (run_block (drop 2 (write_handler SerialException)) faulty_session)) = True"
  by code_simp

section \<open>The delimiter of read-until\<close>

text \<open>
  C2.  The claim: over a driver pre-loaded with the bytes of "HI\\nOK", read_until with the
  default delimiter returns the three bytes up to the line feed, a following read(2)
  returns the other two, and the delimiter handed to the device is the caller's byte.
  The code hands the device the decimal text of the number, the two bytes "10"; that
  text does not occur in the buffer, so all five bytes come back, and the following
  read finds the buffer empty and keeps polling.
\<close>

theorem read_until_default_delimiter_is_decimal_text:
  "fst (read_until 1 LF None (Some 1) (preloaded [0x48, 0x49, 0x0a, 0x4f, 0x4b])) =
     Returned (PyList [0x48, 0x49, 0x0a, 0x4f, 0x4b]) \<and>
   calls (heap (snd (read_until 1 LF None (Some 1) (preloaded [0x48, 0x49, 0x0a, 0x4f, 0x4b]))) 0) =
     [DevInWaiting, DevReadUntil [0x31, 0x30] None] \<and>
   fst (read 10 2 (snd (read_until 1 LF None (Some 1) (preloaded [0x48, 0x49, 0x0a, 0x4f, 0x4b])))) =
     Pending"
  by code_simp

section \<open>The count returned by write\<close>

text \<open>
  C3.  The claim: a successful write returns the number of bytes the driver accepted,
  also when that number is zero.  The code returns the count when it is not zero (here
  2 of 3 bytes); when the driver accepts no byte, and when the data is empty, the
  truthiness test on the count fails and the call returns None.
\<close>

theorem write_zero_accepted_returns_none:
  "fst (write_data [1, 2, 3] (with_port (\<lambda>p. p\<lparr>tx_limit := Some 0\<rparr>) init_default)) =
     Returned PyNone \<and>
   fst (write_data [] init_default) = Returned PyNone \<and>
   fst (write_data [1, 2, 3] (with_port (\<lambda>p. p\<lparr>tx_limit := Some 2\<rparr>) init_default)) =
     Returned (PyInt 2)"
  by code_simp

section \<open>The configuration is never written\<close>

text \<open>
  C10.  Every operation (write, read, read_until, reset_input_buffer, close, get_serial)
  leaves com_port, sleep_tune, telemetrix_aio_instance, close_loop_on_error and the
  my_serial attribute as they were, whatever the outcome and however long it polls.
  close closes the port object and keeps the reference: after close the port is not
  open, and get_serial returns the same object, not None.
\<close>

theorem operations_keep_configuration:
  "config (snd (write_data d s)) = config s \<and>
   config (snd (read n sz s)) = config s \<and>
   config (snd (read_until m e sz' t s)) = config s \<and>
   config (snd (reset_input_buffer s)) = config s \<and>
   config (snd (close s)) = config s \<and>
   config (snd (get_serial s)) = config s \<and>
   (my_serial s = Some r \<longrightarrow>
      \<not> is_open (heap (snd (close s)) r) \<and>
      my_serial (snd (close s)) = Some r \<and>
      get_serial (snd (close s)) = (Returned (PySerial r), snd (close s)))"
proof -
  have "config (snd (read_until m e sz' t s)) = config s"
    by (rule config_read_until)
  moreover have "config (snd (get_serial s)) = config s"
    by (simp add: get_serial_def)
  moreover have "my_serial s = Some r \<longrightarrow>
      \<not> is_open (heap (snd (close s)) r) \<and>
      my_serial (snd (close s)) = Some r \<and>
      get_serial (snd (close s)) = (Returned (PySerial r), snd (close s))"
    by (simp add: close_def get_serial_def dev_close_def)
  ultimately show ?thesis
    by (simp add: config_write_data config_read config_reset_input_buffer)
qed

theorem operations_keep_configuration_witness:
  "my_serial init_default = Some 0 \<and>
   config (snd (write_data [1] init_default)) = config init_default \<and>
   config (snd (read 3 1 init_default)) = config init_default \<and>
   config (snd (read_until 3 LF None (Some 1) init_default)) = config init_default \<and>
   config (snd (reset_input_buffer init_default)) = config init_default \<and>
   config (snd (close init_default)) = config init_default \<and>
   config (snd (get_serial init_default)) = config init_default \<and>
   \<not> is_open (heap (snd (close init_default)) 0) \<and>
   my_serial (snd (close init_default)) = Some 0 \<and>
   get_serial (snd (close init_default)) = (Returned (PySerial 0), snd (close init_default))"
proof -
  have h: "my_serial init_default = Some 0"
    by (simp add: init_default_def init_def)
  show ?thesis
    using h operations_keep_configuration
      [of "[1]" init_default 3 1 3 LF None "Some 1" 0]
    by simp
qed

section \<open>The deadline of read-until\<close>

text \<open>
  C4, as stated, fails in two ways.  For a timeout of 0 the deadline is the entry time; it
  passes without data, and the call neither returns the no-result signal nor stops
  suspending: with a poll interval of one second and a silent driver, three polls later
  the call is still pending, has suspended three times and has read the clock only
  once, at entry.  For a timeout of 2 seconds, in an environment that resumes the first
  suspension late (the clock reads 0 at entry, 2 at the first poll and 50 at the
  second), the call suspends at the first poll, the deadline not being passed, and
  returns the no-result signal at the second poll, when the clock reads 50: far more
  than one poll interval after the deadline.
\<close>

theorem read_until_misses_deadline:
  "fst (read_until 3 LF None (Some 0) slow_adapter) = Pending \<and>
   sleeps (snd (read_until 3 LF None (Some 0) slow_adapter)) = [(0, 1), (1, 1), (2, 1)] \<and>
   clock_reads (snd (read_until 3 LF None (Some 0) slow_adapter)) = 1 \<and>
   fst (read_until 1 LF None (Some 2) overslept) = Pending \<and>
   fst (read_until 2 LF None (Some 2) overslept) = Returned PyNone \<and>
   sleeps (snd (read_until 2 LF None (Some 2) overslept)) = [(0, 1)] \<and>
   clock_reads (snd (read_until 2 LF None (Some 2) overslept)) = 3 \<and>
   clock overslept 0 = 0 \<and> clock overslept 1 = 2 \<and> clock overslept 2 = 50"
  by code_simp

text \<open>
  C4, amended: for a timeout that is not zero, on an open port without faults, read_until
  returns the no-result signal exactly when, at some poll, the device has still not
  reported data and the clock reading taken at that poll is later than the deadline
  (the reading taken once at entry, plus the timeout); no earlier poll found data
  either.  The signal is a normal return, different from the empty sequence.  Every
  suspension of the call is asked to last one poll interval, and one is begun only
  after a clock reading that is not past the deadline; how late the scheduler resumes
  it is not in the code's hands.  On a device that never has data, the signal is
  returned at the first poll whose reading is past the deadline.  The clock readings
  are arbitrary: \<open>clock s k\<close> is the \<open>k\<close>-th value of \<^verbatim>\<open>time.time()\<close>.
\<close>

theorem read_until_no_result_iff_deadline_passed:
  assumes "my_serial s = Some r" and "healthy (heap s r)" and "t \<noteq> 0"
  shows "(fst (read_until n e sz (Some t) s) = Returned PyNone \<longleftrightarrow>
            (\<exists>k<n. \<not> has_data (now s + of_nat k * max (sleep_tune s) 0) (heap s r) \<and>
                   t < clock s (clock_reads s + 1 + k) - clock s (clock_reads s))) \<and>
         Returned PyNone \<noteq> Returned (PyList []) \<and>
         (\<exists>new. sleeps (snd (read_until n e sz (Some t) s)) = sleeps s @ new \<and>
                list_all (\<lambda>(c, d). d = sleep_tune s) new \<and>
                (\<forall>i<length new.
                   clock s (clock_reads s + 1 + i) - clock s (clock_reads s) \<le> t)) \<and>
         (never_data (heap s r) \<and>
          t < clock s (clock_reads s + 1 + j) - clock s (clock_reads s) \<longrightarrow>
            fst (read_until (Suc j) e sz (Some t) s) = Returned PyNone)"
proof -
  let ?s0 = "snd (time_time s)"
  let ?st = "clock s (clock_reads s)"
  have ru: "read_until m e sz (Some t) s =
              read_until_loop m (encode (py_str e)) sz (Some t) ?st ?s0" for m
    by (simp add: read_until_def case_prod_beta)
  have h0: "my_serial ?s0 = Some r" "healthy (heap ?s0 r)"
    using assms(1,2) by simp_all
  have iff: "fst (read_until m e sz (Some t) s) = Returned PyNone \<longleftrightarrow>
            (\<exists>k<m. \<not> has_data (now s + of_nat k * max (sleep_tune s) 0) (heap s r) \<and>
                   t < clock s (clock_reads s + 1 + k) - clock s (clock_reads s))" for m
    using read_until_loop_none_iff [OF h0 assms(3), of m "encode (py_str e)" sz ?st]
    unfolding ru by simp
  have "\<exists>new. sleeps (snd (read_until n e sz (Some t) s)) = sleeps s @ new \<and>
                list_all (\<lambda>(c, d). d = sleep_tune s) new \<and>
                (\<forall>i<length new.
                   clock s (clock_reads s + 1 + i) - clock s (clock_reads s) \<le> t)"
    using read_until_loop_sleeps [OF assms(3), of n "encode (py_str e)" sz ?st ?s0]
    unfolding ru by simp
  moreover have "never_data (heap s r) \<and>
          t < clock s (clock_reads s + 1 + j) - clock s (clock_reads s) \<longrightarrow>
            fst (read_until (Suc j) e sz (Some t) s) = Returned PyNone"
  proof
    assume a: "never_data (heap s r) \<and>
          t < clock s (clock_reads s + 1 + j) - clock s (clock_reads s)"
    then have "\<not> has_data (now s + of_nat j * max (sleep_tune s) 0) (heap s r)"
      using never_data_no_data by blast
    then have "\<exists>k<Suc j. \<not> has_data (now s + of_nat k * max (sleep_tune s) 0) (heap s r) \<and>
                   t < clock s (clock_reads s + 1 + k) - clock s (clock_reads s)"
      using a by blast
    then show "fst (read_until (Suc j) e sz (Some t) s) = Returned PyNone"
      using iff [of "Suc j"] by blast
  qed
  ultimately show ?thesis
    using iff [of n] by simp
qed

theorem read_until_no_result_iff_deadline_passed_witness:
  "my_serial slow_adapter = Some 0 \<and> healthy (heap slow_adapter 0) \<and> (2::rat) \<noteq> 0 \<and>
   never_data (heap slow_adapter 0) \<and>
   2 < clock slow_adapter (clock_reads slow_adapter + 1 + 3) -
       clock slow_adapter (clock_reads slow_adapter) \<and>
   fst (read_until 3 LF None (Some 2) slow_adapter) = Pending \<and>
   fst (read_until (Suc 3) LF None (Some 2) slow_adapter) = Returned PyNone \<and>
   (fst (read_until (Suc 3) LF None (Some 2) slow_adapter) = Returned PyNone \<longleftrightarrow>
      (\<exists>k<Suc 3. \<not> has_data (now slow_adapter + of_nat k * max (sleep_tune slow_adapter) 0)
                 (heap slow_adapter 0) \<and>
             2 < clock slow_adapter (clock_reads slow_adapter + 1 + k) -
                 clock slow_adapter (clock_reads slow_adapter))) \<and>
   (\<exists>new. sleeps (snd (read_until (Suc 3) LF None (Some 2) slow_adapter)) =
            sleeps slow_adapter @ new \<and>
          list_all (\<lambda>(c, d). d = sleep_tune slow_adapter) new \<and>
          (\<forall>i<length new.
             clock slow_adapter (clock_reads slow_adapter + 1 + i) -
             clock slow_adapter (clock_reads slow_adapter) \<le> 2))"
proof -
  have h1: "my_serial slow_adapter = Some 0"
    by (simp add: slow_adapter_def init_def)
  have h2: "healthy (heap slow_adapter 0)"
    by (simp add: slow_adapter_def init_def healthy_def Serial_def)
  have h3: "(2::rat) \<noteq> 0"
    by simp
  have h4: "never_data (heap slow_adapter 0)"
    by (simp add: slow_adapter_def init_def never_data_def Serial_def)
  have h5: "2 < clock slow_adapter (clock_reads slow_adapter + 1 + 3) -
       clock slow_adapter (clock_reads slow_adapter)"
    by (simp add: slow_adapter_def init_def steady_clock_def)
  have p: "fst (read_until 3 LF None (Some 2) slow_adapter) = Pending"
    by code_simp
  show ?thesis
    using h1 h2 h3 h4 h5 p
      read_until_no_result_iff_deadline_passed [OF h1 h2 h3, of "Suc 3" LF None 3]
    by blast
qed

section \<open>A falsy timeout\<close>

text \<open>
  C9.  When the timeout of read_until is 0 or None, the deadline test is skipped: the
  call never returns the no-result signal, whatever the device does; and against an
  open, fault-free device that never has data it is still polling after any number of
  iterations, each of which made one in_waiting call and one suspension.
\<close>

theorem read_until_falsy_timeout_never_times_out:
  assumes "tmo = None \<or> tmo = Some 0"
  shows "fst (read_until n e sz tmo s) \<noteq> Returned PyNone \<and>
         (my_serial s = Some r \<and> healthy (heap s r) \<and> never_data (heap s r) \<longrightarrow>
            fst (read_until n e sz tmo s) = Pending \<and>
            calls (heap (snd (read_until n e sz tmo s)) r) =
              calls (heap s r) @ replicate n DevInWaiting \<and>
            length (sleeps (snd (read_until n e sz tmo s))) = length (sleeps s) + n)"
proof -
  have ft: "\<not> truthy tmo"
    using assms by (rule falsy_not_truthy)
  have "fst (read_until n e sz tmo s) \<noteq> Returned PyNone"
    by (simp add: read_until_def case_prod_beta read_until_loop_not_none [OF ft])
  moreover have "my_serial s = Some r \<and> healthy (heap s r) \<and> never_data (heap s r) \<longrightarrow>
            fst (read_until n e sz tmo s) = Pending \<and>
            calls (heap (snd (read_until n e sz tmo s)) r) =
              calls (heap s r) @ replicate n DevInWaiting \<and>
            length (sleeps (snd (read_until n e sz tmo s))) = length (sleeps s) + n"
    using read_until_loop_quiet [of "snd (time_time s)" r tmo n "encode (py_str e)" sz
        "clock s (clock_reads s)"] assms
    by (simp add: read_until_def case_prod_beta)
  ultimately show ?thesis by simp
qed

theorem read_until_falsy_timeout_never_times_out_witness:
  "(Some (0::rat) = None \<or> Some (0::rat) = Some 0) \<and>
   my_serial init_default = Some 0 \<and> healthy (heap init_default 0) \<and>
   never_data (heap init_default 0) \<and>
   fst (read_until 5 LF None (Some 0) init_default) \<noteq> Returned PyNone \<and>
   fst (read_until 5 LF None (Some 0) init_default) = Pending \<and>
   calls (heap (snd (read_until 5 LF None (Some 0) init_default)) 0) =
     calls (heap init_default 0) @ replicate 5 DevInWaiting \<and>
   length (sleeps (snd (read_until 5 LF None (Some 0) init_default))) =
     length (sleeps init_default) + 5"
proof -
  have h0: "Some (0::rat) = None \<or> Some (0::rat) = Some 0"
    by simp
  have h1: "my_serial init_default = Some 0 \<and> healthy (heap init_default 0) \<and>
            never_data (heap init_default 0)"
    by (simp add: init_default_def init_def healthy_def never_data_def Serial_def)
  show ?thesis
    using h0 h1 read_until_falsy_timeout_never_times_out [OF h0, of 5 LF None init_default 0]
    by blast
qed

section \<open>What read returns\<close>



section \<open>The suspension of read\<close>

text \<open>
  C7, as stated, fails on the length of the suspension: read sleeps twice the poll
  interval.  With a poll interval of one second, one iteration of read on a silent
  driver suspends for two seconds.
\<close>

theorem read_suspends_two_poll_intervals:
  "sleep_tune slow_adapter = 1 \<and>
   sleeps (snd (read 1 1 slow_adapter)) = [(0, 2)]"
  by code_simp

text \<open>
  C7, amended: read has no timeout.  It never returns the no-result signal; each of its
  suspensions lasts twice the configured poll interval (sleep_tune * 2), one per
  iteration that found no data; and on an open port without faults it is still polling
  after n iterations exactly when the device had no data at any of the n polls, so
  it returns only when data has arrived (or raises on a device fault).
\<close>

theorem read_polls_without_timeout:
  "fst (read n sz s) \<noteq> Returned PyNone \<and>
   (\<exists>new. sleeps (snd (read n sz s)) = sleeps s @ new \<and>
          list_all (\<lambda>(c, d). d = sleep_tune s * 2) new \<and>
          (fst (read n sz s) = Pending \<longrightarrow> length new = n)) \<and>
   (my_serial s = Some r \<and> healthy (heap s r) \<longrightarrow>
      (fst (read n sz s) = Pending \<longleftrightarrow>
         (\<forall>k<n. \<not> has_data (now s + of_nat k * max (sleep_tune s * 2) 0) (heap s r))))"
  using read_not_none [of n sz s] read_sleeps [of n sz s] read_pending_iff [of s r n sz]
  by blast

theorem read_polls_without_timeout_witness:
  "my_serial late_data = Some 0 \<and> healthy (heap late_data 0) \<and>
   fst (read 2 2 late_data) = Pending \<and>
   fst (read 3 2 late_data) = Returned (PyList [0x41, 0x42]) \<and>
   fst (read 2 2 late_data) \<noteq> Returned PyNone \<and>
   (\<exists>new. sleeps (snd (read 2 2 late_data)) = sleeps late_data @ new \<and>
          list_all (\<lambda>(c, d). d = sleep_tune late_data * 2) new \<and>
          (fst (read 2 2 late_data) = Pending \<longrightarrow> length new = 2)) \<and>
   (fst (read 2 2 late_data) = Pending \<longleftrightarrow>
      (\<forall>k<2. \<not> has_data (now late_data + of_nat k * max (sleep_tune late_data * 2) 0)
                 (heap late_data 0)))"
proof -
  have h: "my_serial late_data = Some 0 \<and> healthy (heap late_data 0)"
    by (simp add: late_data_def with_port_def init_default_def init_def healthy_def Serial_def)
  have p: "fst (read 2 2 late_data) = Pending"
    by code_simp
  have q: "fst (read 3 2 late_data) = Returned (PyList [0x41, 0x42])"
    by code_simp
  show ?thesis
    using h p q read_polls_without_timeout [of 2 2 late_data 0] by blast
qed

section \<open>What read-until returns\<close>




section \<open>After a device fault\<close>

text \<open>
  C5, as stated, fails: after a read hit a device fault the handle is still there
  (the attribute is not None and get_serial returns the port object), and a following
  read does make a device call, in_waiting, on the closed port object.
\<close>

theorem after_fault_handle_present_and_called:
  "my_serial after_fault = Some 0 \<and>
   fst (get_serial after_fault) = Returned (PySerial 0) \<and>
   is_open (heap after_fault 0) = False \<and>
   calls (heap after_fault 0) = [DevInWaiting, DevClose] \<and>
   take 3 (calls (heap (snd (read 1 1 after_fault)) 0)) = [DevInWaiting, DevClose, DevInWaiting]"
  by code_simp

text \<open>
  C5, amended: after a write, read or read_until has raised a device fault, the port is
  closed and the adapter keeps its handle: the attribute still refers to the port
  object and get_serial returns it.  A following read, read_until or write does not
  fail on an absent handle: its first step is a device call (in_waiting, or write) on
  the closed port object; what that call does is the driver's affair.  close returns
  without raising, however many times it is called.
\<close>

theorem fault_closes_port_and_keeps_handle:
  assumes "my_serial s = Some r"
    and "write_data d s = (Raised SerialException, s') \<or>
         read n sz s = (Raised SerialException, s') \<or>
         read_until m e sz' tmo s = (Raised SerialException, s')"
  shows "\<not> is_open (heap s' r) \<and> my_serial s' = Some r \<and>
         fst (get_serial s') = Returned (PySerial r) \<and>
         (\<exists>rest. calls (heap (snd (read (Suc k) sz_next s')) r) =
                   calls (heap s' r) @ DevInWaiting # rest) \<and>
         (\<exists>rest. calls (heap (snd (read_until (Suc k) e_next bound_next tmo_next s')) r) =
                   calls (heap s' r) @ DevInWaiting # rest) \<and>
         (py_bytes d_next = Inr b \<longrightarrow>
            (\<exists>rest. calls (heap (snd (write_data d_next s')) r) =
                      calls (heap s' r) @ DevWrite b # rest)) \<and>
         fst (close (((\<lambda>x. snd (close x)) ^^ j) s')) = Returned PyNone"
proof -
  have cfg: "config s' = config s"
    using assms(2) config_write_data [of d s] config_read [of n sz s]
      config_read_until [of m e sz' tmo s]
    by auto
  then have ms: "my_serial s' = Some r"
    using assms(1) by (simp add: config_def)
  have m0: "my_serial (snd (time_time s)) = Some r"
    using assms(1) by simp
  have closed: "\<not> is_open (heap s' r)"
    using assms(2) write_data_fault_closed [OF assms(1), of d] read_fault_closed [OF assms(1), of n sz]
      read_until_loop_fault_closed [OF m0, of m "encode (py_str e)" sz' tmo
        "clock s (clock_reads s)"]
    by (auto simp: read_until_def case_prod_beta)
  have "fst (get_serial s') = Returned (PySerial r)"
    using ms by (simp add: get_serial_def)
  moreover have "\<exists>rest. calls (heap (snd (read (Suc k) sz_next s')) r) =
                   calls (heap s' r) @ DevInWaiting # rest"
    using read_calls [OF ms, of "Suc k" sz_next] by blast
  moreover have "\<exists>rest. calls (heap (snd (read_until (Suc k) e_next bound_next tmo_next s')) r) =
                   calls (heap s' r) @ DevInWaiting # rest"
  proof -
    have "my_serial (snd (time_time s')) = Some r"
      using ms by simp
    from read_until_loop_calls [OF this, of "Suc k" "encode (py_str e_next)" bound_next tmo_next
        "clock s' (clock_reads s')"]
    show ?thesis
      by (simp add: read_until_def case_prod_beta del: read_until_loop.simps) blast
  qed
  moreover have "py_bytes d_next = Inr b \<longrightarrow>
            (\<exists>rest. calls (heap (snd (write_data d_next s')) r) =
                      calls (heap s' r) @ DevWrite b # rest)"
    using write_data_calls [OF ms] by blast
  moreover have "fst (close (((\<lambda>x. snd (close x)) ^^ j) s')) = Returned PyNone"
    by (rule close_returns)
  ultimately show ?thesis
    using ms closed by blast
qed

theorem fault_closes_port_and_keeps_handle_witness:
  "my_serial faulty_session = Some 0 \<and>
   read 1 1 faulty_session = (Raised SerialException, after_fault) \<and>
   py_bytes [1, 2] = Inr [1, 2] \<and>
   \<not> is_open (heap after_fault 0) \<and> my_serial after_fault = Some 0 \<and>
   fst (get_serial after_fault) = Returned (PySerial 0) \<and>
   (\<exists>rest. calls (heap (snd (read (Suc 0) 1 after_fault)) 0) =
             calls (heap after_fault 0) @ DevInWaiting # rest) \<and>
   (\<exists>rest. calls (heap (snd (read_until (Suc 0) LF None (Some 1) after_fault)) 0) =
             calls (heap after_fault 0) @ DevInWaiting # rest) \<and>
   (\<exists>rest. calls (heap (snd (write_data [1, 2] after_fault)) 0) =
             calls (heap after_fault 0) @ DevWrite [1, 2] # rest) \<and>
   fst (close (((\<lambda>x. snd (close x)) ^^ 3) after_fault)) = Returned PyNone"
proof -
  have h1: "my_serial faulty_session = Some 0"
    by (simp add: faulty_session_def with_port_def init_def)
  have f: "fst (read 1 1 faulty_session) = Raised SerialException"
    by code_simp
  have h2: "read 1 1 faulty_session = (Raised SerialException, after_fault)"
    using f by (simp add: prod_eq_iff after_fault_def)
  have h2': "write_data d faulty_session = (Raised SerialException, after_fault) \<or>
         read 1 1 faulty_session = (Raised SerialException, after_fault) \<or>
         read_until m e sz' tmo faulty_session = (Raised SerialException, after_fault)"
    for d m e sz' tmo
    using h2 by blast
  have h3: "py_bytes [1, 2] = Inr [1, 2]"
    by (simp add: py_bytes_def)
  show ?thesis
    using h1 h2 h3
      fault_closes_port_and_keeps_handle [OF h1 h2', where k = 0 and sz_next = 1 and e_next = LF
        and bound_next = None and tmo_next = "Some 1" and d_next = "[1, 2]" and b = "[1, 2]" and j = 3]
    by blast
qed

end
